theory Spec2Isabelle
  imports Complex_Main
begin

section \<open>Python values used by the processor\<close>

text \<open>
  The processor (\<^verbatim>\<open>src/app/processor.py\<close>) works on messages of type
  \<^verbatim>\<open>dict[str, Any]\<close>. The values are modelled as the data a decoded message can
  hold. A Python \<^verbatim>\<open>float\<close> is an IEEE 754 binary64 number: a finite one is kept as
  the rational it denotes (\<open>Fin 0\<close> is \<open>+0.0\<close>), and the negative zero, the two
  infinities and the NaN are constructors of their own.
\<close>

datatype pyfloat = Fin rat | NegZero | PosInf | NegInf | NaN

datatype pyval =
    PyNone
  | PyBool bool
  | PyInt int
  | PyFloat pyfloat
  | PyStr string
  | PyList "pyval list"
  | PyDict "(string \<times> pyval) list"

type_synonym message = "string \<rightharpoonup> pyval"

text \<open>The exceptions that the two functions can raise; the message text is left out.\<close>

datatype py_error = ValueError | TypeError | OverflowError | ZeroDivisionError

text \<open>
  A call of the logger is recorded as its level and the arguments interpolated into the
  format string, in the order of the calls.
\<close>

datatype log_level = DEBUG | INFO | ERROR

datatype log_arg = LVal pyval | LDict message

type_synonym log_entry = "log_level \<times> log_arg list"

subsection \<open>Rounding a rational to the nearest binary64\<close>

text \<open>The number of halvings that bring a positive integer below 2.\<close>

function floor_log2 :: "int \<Rightarrow> int" where
  "floor_log2 n = (if n < 2 then 0 else 1 + floor_log2 (n div 2))"
  by pat_completeness auto
termination
  by (relation "measure nat") auto

declare floor_log2.simps [simp del]

definition pow2 :: "int \<Rightarrow> rat" where
  "pow2 e = (if 0 \<le> e then 2 ^ nat e else 1 / 2 ^ nat (- e))"

text \<open>\<open>ilog2 a\<close> is the integer \<open>k\<close> with \<open>2^k \<le> a < 2^(k+1)\<close>, for \<open>a > 0\<close>.\<close>

definition ilog2 :: "rat \<Rightarrow> int" where
  "ilog2 a =
     (let (n, d) = quotient_of a;
          k = floor_log2 n - floor_log2 d
      in if pow2 k \<le> a then k else k - 1)"

definition round_half_even :: "rat \<Rightarrow> int" where
  "round_half_even q =
     (let f = \<lfloor>q\<rfloor>; r = q - of_int f
      in if r < 1 / 2 then f
         else if 1 / 2 < r then f + 1
         else if even f then f else f + 1)"

text \<open>
  Round to nearest, ties to even, with 53 bits of precision, gradual underflow below
  \<open>2^-1022\<close> (the unit in the last place is never smaller than \<open>2^-1074\<close>) and
  overflow to an infinity from \<open>2^1024\<close> on. A result that underflows to zero keeps
  the sign.
\<close>

definition round_to_double :: "rat \<Rightarrow> pyfloat" where
  "round_to_double q =
     (if q = 0 then Fin 0
      else let a = \<bar>q\<bar>;
               e = max (ilog2 a - 52) (- 1074);
               m = round_half_even (a / pow2 e);
               r = of_int m * pow2 e
           in if pow2 1024 \<le> r then (if q < 0 then NegInf else PosInf)
              else if m = 0 then (if q < 0 then NegZero else Fin 0)
              else Fin (if q < 0 then - r else r))"

subsection \<open>Float arithmetic and comparison\<close>

fun fval :: "pyfloat \<Rightarrow> rat" where
  "fval (Fin q) = q"
| "fval _ = 0"

fun is_zero :: "pyfloat \<Rightarrow> bool" where
  "is_zero (Fin q) = (q = 0)"
| "is_zero NegZero = True"
| "is_zero _ = False"

fun is_inf :: "pyfloat \<Rightarrow> bool" where
  "is_inf PosInf = True"
| "is_inf NegInf = True"
| "is_inf _ = False"

fun sign_bit :: "pyfloat \<Rightarrow> bool" where
  "sign_bit (Fin q) = (q < 0)"
| "sign_bit NegZero = True"
| "sign_bit NegInf = True"
| "sign_bit _ = False"

fun float_neg :: "pyfloat \<Rightarrow> pyfloat" where
  "float_neg (Fin q) = (if q = 0 then NegZero else Fin (- q))"
| "float_neg NegZero = Fin 0"
| "float_neg PosInf = NegInf"
| "float_neg NegInf = PosInf"
| "float_neg NaN = NaN"

text \<open>\<^verbatim>\<open>a - b\<close> on floats: never raises; an exact zero is \<open>+0.0\<close> except for
  \<open>(-0.0) - (+0.0)\<close>.\<close>

definition float_sub :: "pyfloat \<Rightarrow> pyfloat \<Rightarrow> pyfloat" where
  "float_sub a b =
     (if a = NaN \<or> b = NaN then NaN
      else if a = PosInf then (if b = PosInf then NaN else PosInf)
      else if a = NegInf then (if b = NegInf then NaN else NegInf)
      else if b = PosInf then NegInf
      else if b = NegInf then PosInf
      else if a = NegZero \<and> b = Fin 0 then NegZero
      else round_to_double (fval a - fval b))"

text \<open>\<^verbatim>\<open>a / b\<close> on floats: Python tests the divisor first and raises
  \<^verbatim>\<open>ZeroDivisionError\<close> for \<open>0.0\<close> and \<open>-0.0\<close>, whatever the dividend is.\<close>

definition float_div :: "pyfloat \<Rightarrow> pyfloat \<Rightarrow> py_error + pyfloat" where
  "float_div a b =
     (if is_zero b then Inl ZeroDivisionError
      else Inr
        (if a = NaN \<or> b = NaN then NaN
         else if is_inf a then
           (if is_inf b then NaN else if sign_bit a \<noteq> sign_bit b then NegInf else PosInf)
         else if is_inf b \<or> is_zero a then
           (if sign_bit a \<noteq> sign_bit b then NegZero else Fin 0)
         else round_to_double (fval a / fval b)))"

text \<open>\<^verbatim>\<open>a < b\<close> and \<^verbatim>\<open>a > b\<close>: false as soon as one side is the NaN; the two zeros
  are equal.\<close>

definition float_lt :: "pyfloat \<Rightarrow> pyfloat \<Rightarrow> bool" where
  "float_lt a b =
     (if a = NaN \<or> b = NaN then False
      else if a = NegInf then b \<noteq> NegInf
      else if b = PosInf then a \<noteq> PosInf
      else if a = PosInf \<or> b = NegInf then False
      else fval a < fval b)"

definition float_gt :: "pyfloat \<Rightarrow> pyfloat \<Rightarrow> bool" where
  "float_gt a b = float_lt b a"

text \<open>
  \<^verbatim>\<open>round(x, ndigits)\<close> on a float, for \<open>ndigits \<ge> 0\<close>: infinities and the NaN
  round to themselves, and so does every float when \<open>ndigits\<close> exceeds 323. Otherwise
  the exact value of \<open>x\<close> is rounded to \<open>ndigits\<close> decimals, ties to the even last
  digit, and the decimal is converted back to the nearest float; the sign of \<open>x\<close>
  is kept on a zero result, and a result out of range raises \<^verbatim>\<open>OverflowError\<close>.
\<close>

definition py_round :: "pyfloat \<Rightarrow> nat \<Rightarrow> py_error + pyfloat" where
  "py_round x ndigits =
     (case x of
        Fin q \<Rightarrow>
          if 323 < ndigits then Inr x
          else
            let k = round_half_even (q * 10 ^ ndigits)
            in if k = 0 then Inr (if q < 0 then NegZero else Fin 0)
               else (case round_to_double (of_int k / 10 ^ ndigits) of
                       PosInf \<Rightarrow> Inl OverflowError
                     | NegInf \<Rightarrow> Inl OverflowError
                     | y \<Rightarrow> Inr y)
      | _ \<Rightarrow> Inr x)"

subsection \<open>The built-in \<^verbatim>\<open>float()\<close>\<close>

text \<open>
  A \<^verbatim>\<open>str\<close> is modelled as ASCII text, one \<open>char\<close> per code point.
  \<^verbatim>\<open>float(s)\<close> first checks the underscores of \<open>s\<close> (each one must stand
  between two digits) and drops them, then strips white space at both ends, and reads
  an optional sign followed by \<^verbatim>\<open>inf\<close>, \<^verbatim>\<open>infinity\<close>, \<^verbatim>\<open>nan\<close> (in any case) or a
  decimal numeral with an optional exponent. Anything else is a \<^verbatim>\<open>ValueError\<close>.
\<close>

definition is_space :: "char \<Rightarrow> bool" where
  "is_space c = (c \<in> set [CHR '' '', CHR 0x09, CHR 0x0A, CHR 0x0B, CHR 0x0C, CHR 0x0D])"

definition is_digit :: "char \<Rightarrow> bool" where
  "is_digit c = (48 \<le> (of_char c :: nat) \<and> (of_char c :: nat) \<le> 57)"

fun drop_underscores :: "char \<Rightarrow> string \<Rightarrow> string option" where
  "drop_underscores prev [] = (if prev = CHR ''_'' then None else Some [])"
| "drop_underscores prev (c # cs) =
     (if c = CHR ''_'' then (if is_digit prev then drop_underscores c cs else None)
      else if prev = CHR ''_'' \<and> \<not> is_digit c then None
      else map_option ((#) c) (drop_underscores c cs))"

definition strip :: "string \<Rightarrow> string" where
  "strip s = rev (dropWhile is_space (rev (dropWhile is_space s)))"

definition digits_val :: "string \<Rightarrow> nat" where
  "digits_val ds = foldl (\<lambda>a c. 10 * a + (of_char c - 48)) 0 ds"

definition lower :: "string \<Rightarrow> string" where
  "lower s = map (\<lambda>c. if 65 \<le> (of_char c :: nat) \<and> (of_char c :: nat) \<le> 90
                        then char_of (of_char c + 32 :: nat) else c) s"

definition pow10 :: "int \<Rightarrow> rat" where
  "pow10 e = (if 0 \<le> e then 10 ^ nat e else 1 / 10 ^ nat (- e))"

text \<open>The sign of a numeral or of an exponent: \<open>True\<close> for a minus.\<close>

fun take_sign :: "string \<Rightarrow> bool \<times> string" where
  "take_sign (c # cs) =
     (if c = CHR ''-'' then (True, cs) else if c = CHR ''+'' then (False, cs)
      else (False, c # cs))"
| "take_sign [] = (False, [])"

text \<open>An exponent part without a digit is not read, so it is left over and the
  string is rejected.\<close>

definition take_exponent :: "string \<Rightarrow> int \<times> string" where
  "take_exponent s =
     (case s of
        [] \<Rightarrow> (0, [])
      | c # cs \<Rightarrow>
          if c = CHR ''e'' \<or> c = CHR ''E'' then
            (let (neg, t) = take_sign cs;
                 ds = takeWhile is_digit t
             in if ds = [] then (0, s)
                else ((if neg then - int (digits_val ds) else int (digits_val ds)),
                      dropWhile is_digit t))
          else (0, s))"

definition parse_decimal :: "string \<Rightarrow> rat option" where
  "parse_decimal s =
     (let ip = takeWhile is_digit s;
          r1 = dropWhile is_digit s;
          fp = (case r1 of c # t \<Rightarrow> if c = CHR ''.'' then takeWhile is_digit t else []
                | [] \<Rightarrow> []);
          r2 = (case r1 of c # t \<Rightarrow> if c = CHR ''.'' then dropWhile is_digit t else r1
                | [] \<Rightarrow> [])
      in if ip = [] \<and> fp = [] then None
         else let (ex, r3) = take_exponent r2
              in if r3 \<noteq> [] then None
                 else Some (of_nat (digits_val (ip @ fp)) * pow10 (ex - int (length fp))))"

definition float_of_string :: "string \<Rightarrow> py_error + pyfloat" where
  "float_of_string s =
     (case drop_underscores (CHR 0x00) s of
        None \<Rightarrow> Inl ValueError
      | Some s1 \<Rightarrow>
          let (neg, body) = take_sign (strip s1)
          in if lower body = ''inf'' \<or> lower body = ''infinity''
               then Inr (if neg then NegInf else PosInf)
             else if lower body = ''nan'' then Inr NaN
             else (case parse_decimal body of
                     None \<Rightarrow> Inl ValueError
                   | Some q \<Rightarrow>
                       Inr (if q = 0 then (if neg then NegZero else Fin 0)
                            else round_to_double (if neg then - q else q))))"

text \<open>
  \<^verbatim>\<open>float(v)\<close>: a float is returned as it is; an \<^verbatim>\<open>int\<close> (and a \<^verbatim>\<open>bool\<close>, which
  is an \<^verbatim>\<open>int\<close>) is rounded to the nearest float, with \<^verbatim>\<open>OverflowError\<close> when it is
  too large; a \<^verbatim>\<open>str\<close> is parsed; \<^verbatim>\<open>None\<close>, a list and a dict are a
  \<^verbatim>\<open>TypeError\<close>.
\<close>

fun py_float :: "pyval \<Rightarrow> py_error + pyfloat" where
  "py_float (PyFloat x) = Inr x"
| "py_float (PyInt i) =
     (case round_to_double (of_int i) of
        PosInf \<Rightarrow> Inl OverflowError
      | NegInf \<Rightarrow> Inl OverflowError
      | y \<Rightarrow> Inr y)"
| "py_float (PyBool b) = Inr (Fin (if b then 1 else 0))"
| "py_float (PyStr s) = float_of_string s"
| "py_float PyNone = Inl TypeError"
| "py_float (PyList _) = Inl TypeError"
| "py_float (PyDict _) = Inl TypeError"

text \<open>\<^verbatim>\<open>d.get(key, default)\<close>\<close>

definition dict_get :: "message \<Rightarrow> string \<Rightarrow> pyval \<Rightarrow> pyval" where
  "dict_get d k dflt = (case d k of None \<Rightarrow> dflt | Some v \<Rightarrow> v)"

section \<open>The processor\<close>

text \<open>
  \<^verbatim>\<open>validate_input_message\<close>. The schema check \<^verbatim>\<open>validate_message_schema\<close> lives in
  \<^verbatim>\<open>app.utils.validate_data\<close>, outside the module; it is the first argument. The
  function logs at debug level, and on a rejected message logs the message at error
  level and raises \<^verbatim>\<open>ValueError("Invalid message format")\<close>; otherwise it returns
  its argument.
\<close>

definition validate_input_message ::
  "(message \<Rightarrow> bool) \<Rightarrow> message \<Rightarrow> log_entry list \<times> (py_error + message)" where
  "validate_input_message validate_message_schema message =
     (if \<not> validate_message_schema message
      then ([(DEBUG, []), (ERROR, [LDict message])], Inl ValueError)
      else ([(DEBUG, [])], Inr message))"

text \<open>The float literal \<^verbatim>\<open>0.03\<close> of the source.\<close>

definition lit_0_03 :: pyfloat where
  "lit_0_03 = round_to_double (3 / 100)"

text \<open>
  \<^verbatim>\<open>compute_meanreversion_signal\<close>. The two coercions come first, so that a failing
  one raises before anything is logged; the division raises after the info entry.
\<close>

definition compute_meanreversion_signal ::
  "message \<Rightarrow> log_entry list \<times> (py_error + message)" where
  "compute_meanreversion_signal message =
     (let symbol = dict_get message ''symbol'' (PyStr ''UNKNOWN'') in
      case py_float (dict_get message ''price'' (PyFloat (Fin 100))) of
        Inl err \<Rightarrow> ([], Inl err)
      | Inr price \<Rightarrow>
      (case py_float (dict_get message ''moving_average'' (PyFloat (Fin 100))) of
        Inl err \<Rightarrow> ([], Inl err)
      | Inr moving_avg \<Rightarrow>
      (let log1 = [(INFO, [LVal symbol])] in
       case float_div (float_sub price moving_avg) moving_avg of
        Inl err \<Rightarrow> (log1, Inl err)
      | Inr deviation \<Rightarrow>
      (let signal =
             (if float_lt deviation (float_neg lit_0_03) then ''REVERT_UP''
              else if float_gt deviation lit_0_03 then ''REVERT_DOWN''
              else ''NEUTRAL'')
       in case py_round deviation 4 of
        Inl err \<Rightarrow> (log1, Inl err)
      | Inr rounded \<Rightarrow>
      (let result = [''mean_reversion_deviation'' \<mapsto> PyFloat rounded,
                     ''mean_reversion_signal'' \<mapsto> PyStr signal]
       in (log1 @ [(DEBUG, [LVal symbol, LDict result])], Inr (message ++ result)))))))"

section \<open>Properties of the float operations\<close>

text \<open>
  Rounding to 4 decimals never overflows on a value that a float division has produced:
  a finite binary64 is below \<open>2^1024 - 2^970\<close> in magnitude, and it is an integer
  as soon as it exceeds \<open>2^52\<close>.
\<close>

lemma pow2_powi: "pow2 e = 2 powi e"
  by (simp add: pow2_def power_int_def inverse_eq_divide power_one_over)

lemma pow2_pos: "0 < pow2 e"
  by (simp add: pow2_powi)

lemma pow2_add: "pow2 (a + b) = pow2 a * pow2 b"
  by (simp add: pow2_powi power_int_add)

lemma pow2_mono: "a \<le> b \<Longrightarrow> pow2 a \<le> pow2 b"
  by (simp add: pow2_powi power_int_increasing)

lemma pow2_less_cancel: "pow2 a < pow2 b \<Longrightarrow> a < b"
  using pow2_mono [of b a] by (cases "a < b") auto

lemma floor_log2_bounds:
  "1 \<le> n \<Longrightarrow> 0 \<le> floor_log2 n \<and> 2 ^ nat (floor_log2 n) \<le> n \<and> n < 2 * 2 ^ nat (floor_log2 n)"
proof (induction n rule: floor_log2.induct)
  case (1 n)
  show ?case
  proof (cases "n < 2")
    case True
    with "1.prems" have "n = 1" by simp
    then show ?thesis by (simp add: floor_log2.simps)
  next
    case False
    then have h: "1 \<le> n div 2" by simp
    from "1.IH" [OF False h]
    have ih: "0 \<le> floor_log2 (n div 2)" "2 ^ nat (floor_log2 (n div 2)) \<le> n div 2"
      "n div 2 < 2 * 2 ^ nat (floor_log2 (n div 2))" by auto
    have eq: "floor_log2 n = 1 + floor_log2 (n div 2)"
      using False by (subst floor_log2.simps) simp
    define P where "P = (2::int) ^ nat (floor_log2 (n div 2))"
    have p: "(2::int) ^ nat (floor_log2 n) = 2 * P"
      using ih(1) by (simp add: eq nat_add_distrib P_def)
    have "P \<le> n div 2" "n div 2 < 2 * P" using ih by (simp_all add: P_def)
    then have "2 * P \<le> n" "n < 2 * (2 * P)" by linarith+
    moreover have "0 \<le> floor_log2 n" using ih(1) eq by simp
    ultimately show ?thesis using p by simp
  qed
qed

lemma round_half_even_bounds:
  "of_int (round_half_even q) \<le> q + 1 / 2 \<and> q - 1 / 2 \<le> of_int (round_half_even q)"
proof -
  define f where "f = \<lfloor>q\<rfloor>"
  have b: "of_int f \<le> q" "q < of_int f + 1" unfolding f_def by linarith+
  consider "q - of_int f < 1 / 2" | "1 / 2 < q - of_int f" | "q - of_int f = 1 / 2"
    by linarith
  then show ?thesis
  proof cases
    case 1
    then have "round_half_even q = f" by (simp add: round_half_even_def f_def)
    with 1 b show ?thesis by simp
  next
    case 2
    then have "round_half_even q = f + 1" by (simp add: round_half_even_def f_def)
    with 2 b show ?thesis by simp
  next
    case 3
    then have "round_half_even q = f \<or> round_half_even q = f + 1"
      by (simp add: round_half_even_def f_def Let_def)
    with 3 b show ?thesis by auto
  qed
qed

lemma round_half_even_of_int: "round_half_even (of_int k) = k"
  by (simp add: round_half_even_def)


lemma pow2_diff: "pow2 (a - b) = pow2 a / pow2 b"
  by (simp add: pow2_powi power_int_diff)

lemma pow2_1: "pow2 1 = 2"
  by (simp add: pow2_def)

lemma pow2_Suc: "pow2 (a + 1) = 2 * pow2 a"
  by (simp add: pow2_add pow2_1)

lemma pow2_pred: "pow2 (a - 1) = pow2 a / 2"
  by (simp add: pow2_diff pow2_1)

lemma pow2_of_nonneg: "0 \<le> e \<Longrightarrow> pow2 e = of_int (2 ^ nat e)"
  by (simp add: pow2_def)

lemma ilog2_bounds:
  assumes "0 < a"
  shows "pow2 (ilog2 a) \<le> a \<and> a < pow2 (ilog2 a + 1)"
proof -
  obtain n d where nd: "quotient_of a = (n, d)" by (cases "quotient_of a")
  have d: "0 < d" using quotient_of_denom_pos [OF nd] .
  have a: "a = of_int n / of_int d" using quotient_of_div [OF nd] .
  have n: "0 < n" using assms d by (simp add: a zero_less_divide_iff)
  define fn where "fn = floor_log2 n"
  define fd where "fd = floor_log2 d"
  have bn: "0 \<le> fn" "2 ^ nat fn \<le> n" "n < 2 * 2 ^ nat fn"
    using floor_log2_bounds [of n] n by (simp_all add: fn_def)
  have bd: "0 \<le> fd" "2 ^ nat fd \<le> d" "d < 2 * 2 ^ nat fd"
    using floor_log2_bounds [of d] d by (simp_all add: fd_def)
  have N: "pow2 fn \<le> of_int n" "of_int n < 2 * pow2 fn"
  proof -
    have "(of_int (2 ^ nat fn) :: rat) \<le> of_int n" using bn(2) by (simp only: of_int_le_iff)
    then show "pow2 fn \<le> of_int n" by (simp add: pow2_of_nonneg bn(1))
    have "(of_int n :: rat) < of_int (2 * 2 ^ nat fn)" using bn(3) by (simp only: of_int_less_iff)
    then show "of_int n < 2 * pow2 fn" by (simp add: pow2_of_nonneg bn(1))
  qed
  have D: "pow2 fd \<le> of_int d" "of_int d < 2 * pow2 fd"
  proof -
    have "(of_int (2 ^ nat fd) :: rat) \<le> of_int d" using bd(2) by (simp only: of_int_le_iff)
    then show "pow2 fd \<le> of_int d" by (simp add: pow2_of_nonneg bd(1))
    have "(of_int d :: rat) < of_int (2 * 2 ^ nat fd)" using bd(3) by (simp only: of_int_less_iff)
    then show "of_int d < 2 * pow2 fd" by (simp add: pow2_of_nonneg bd(1))
  qed
  have up: "a < pow2 (fn - fd + 1)"
  proof -
    have "of_int n / of_int d < (2 * pow2 fn) / pow2 fd"
      by (rule frac_less) (use N D n pow2_pos [of fd] in simp_all)
    then show ?thesis by (simp add: a pow2_Suc pow2_diff)
  qed
  have lo: "pow2 (fn - fd - 1) \<le> a"
  proof -
    have "pow2 fn / (2 * pow2 fd) \<le> of_int n / of_int d"
      by (rule frac_le) (use N D n d in simp_all)
    then show ?thesis by (simp add: a pow2_diff pow2_1 mult.commute)
  qed
  have il: "ilog2 a = (if pow2 (fn - fd) \<le> a then fn - fd else fn - fd - 1)"
    by (simp add: ilog2_def nd fn_def fd_def)
  show ?thesis
  proof (cases "pow2 (fn - fd) \<le> a")
    case True
    then show ?thesis using up by (simp add: il)
  next
    case False
    then show ?thesis using lo by (simp add: il)
  qed
qed


lemma pow2_strict_mono: "a < b \<Longrightarrow> pow2 a < pow2 b"
  by (simp add: pow2_powi power_int_strict_increasing)

lemma pow2_53: "pow2 53 = 2 ^ 53"
  by (simp add: pow2_def)

lemma round_to_double_unfold:
  assumes "q \<noteq> 0"
  defines "e \<equiv> max (ilog2 \<bar>q\<bar> - 52) (- 1074)"
  defines "m \<equiv> round_half_even (\<bar>q\<bar> / pow2 e)"
  shows "round_to_double q =
           (if pow2 1024 \<le> of_int m * pow2 e then (if q < 0 then NegInf else PosInf)
            else if m = 0 then (if q < 0 then NegZero else Fin 0)
            else Fin (if q < 0 then - (of_int m * pow2 e) else of_int m * pow2 e))"
    and "0 \<le> m" and "m \<le> 2 ^ 53" and "- 1074 \<le> e"
    and "of_int m * pow2 e \<le> \<bar>q\<bar> + pow2 (e - 1)"
    and "ilog2 \<bar>q\<bar> - 52 \<le> e"
proof -
  show "round_to_double q =
           (if pow2 1024 \<le> of_int m * pow2 e then (if q < 0 then NegInf else PosInf)
            else if m = 0 then (if q < 0 then NegZero else Fin 0)
            else Fin (if q < 0 then - (of_int m * pow2 e) else of_int m * pow2 e))"
    using assms(1) by (simp add: round_to_double_def Let_def e_def m_def)
  show e1: "- 1074 \<le> e" and e2: "ilog2 \<bar>q\<bar> - 52 \<le> e" by (simp_all add: e_def)
  have a: "0 < \<bar>q\<bar>" using assms(1) by simp
  define y where "y = \<bar>q\<bar> / pow2 e"
  have y: "0 < y" using a pow2_pos [of e] by (simp add: y_def)
  have rb: "of_int m \<le> y + 1 / 2" "y - 1 / 2 \<le> of_int m"
    using round_half_even_bounds [of y] by (simp_all add: m_def y_def)
  have "(- 1 :: rat) < of_int m" using rb(2) y by linarith
  then have "(of_int (- 1) :: rat) < of_int m" by simp
  then have "- 1 < m" by (simp only: of_int_less_iff)
  then show "0 \<le> m" by simp
  have "\<bar>q\<bar> < pow2 (ilog2 \<bar>q\<bar> + 1)" using ilog2_bounds [OF a] by simp
  also have "\<dots> \<le> pow2 (e + 53)" using e2 by (intro pow2_mono) simp
  also have "\<dots> = pow2 e * 2 ^ 53" by (simp only: pow2_add pow2_53)
  finally have "y < 2 ^ 53" using pow2_pos [of e] by (simp add: y_def field_simps)
  then have "(of_int m :: rat) < 2 ^ 53 + 1" using rb(1) by linarith
  then have "(of_int m :: rat) < of_int (2 ^ 53 + 1)" by simp
  then have "m < 2 ^ 53 + 1" by (simp only: of_int_less_iff)
  then show "m \<le> 2 ^ 53" by simp
  have "of_int m * pow2 e \<le> (y + 1 / 2) * pow2 e"
    using rb(1) pow2_pos [of e] by (simp only: mult_le_cancel_right_pos)
  also have "\<dots> = \<bar>q\<bar> + pow2 (e - 1)"
    using pow2_pos [of e] by (simp add: y_def pow2_pred field_simps)
  finally show "of_int m * pow2 e \<le> \<bar>q\<bar> + pow2 (e - 1)" .
qed

lemma round_to_double_no_overflow:
  assumes "q \<noteq> 0" and "\<bar>q\<bar> < pow2 1024 - pow2 970"
  shows "round_to_double q \<noteq> PosInf \<and> round_to_double q \<noteq> NegInf"
proof -
  define e where "e = max (ilog2 \<bar>q\<bar> - 52) (- 1074)"
  define m where "m = round_half_even (\<bar>q\<bar> / pow2 e)"
  note u = round_to_double_unfold [OF assms(1), folded e_def m_def]
  have a: "0 < \<bar>q\<bar>" using assms(1) by simp
  have "pow2 (ilog2 \<bar>q\<bar>) \<le> \<bar>q\<bar>" using ilog2_bounds [OF a] by simp
  also have "\<dots> < pow2 1024" using assms(2) pow2_pos [of 970] by linarith
  finally have "ilog2 \<bar>q\<bar> < 1024" by (rule pow2_less_cancel)
  then have "e \<le> 971" by (simp add: e_def)
  then have "pow2 (e - 1) \<le> pow2 970" by (intro pow2_mono) simp
  with u(5) assms(2) have "of_int m * pow2 e < pow2 1024" by linarith
  then show ?thesis by (simp add: u(1))
qed


lemma pow2_gap: "pow2 52 < pow2 1024 - pow2 970" "pow2 1023 < pow2 1024 - pow2 970"
proof -
  have a: "pow2 970 < pow2 1023" "pow2 52 < pow2 1023" by (rule pow2_strict_mono, simp)+
  have b: "pow2 1024 = 2 * pow2 1023" using pow2_Suc [of 1023] by simp
  show "pow2 52 < pow2 1024 - pow2 970" "pow2 1023 < pow2 1024 - pow2 970"
    using a b pow2_pos [of 1023] by linarith+
qed

lemma round_to_double_Fin:
  assumes "round_to_double q = Fin r"
  shows "\<bar>r\<bar> < pow2 1024 - pow2 970 \<and> (\<bar>r\<bar> \<le> pow2 52 \<or> (\<exists>i. r = of_int i))"
proof (cases "q = 0")
  case True
  then have "r = 0" using assms by (simp add: round_to_double_def)
  then show ?thesis using pow2_gap(1) pow2_pos [of 52] by simp
next
  case False
  define e where "e = max (ilog2 \<bar>q\<bar> - 52) (- 1074)"
  define m where "m = round_half_even (\<bar>q\<bar> / pow2 e)"
  define R where "R = (of_int m :: rat) * pow2 e"
  note u = round_to_double_unfold [OF False, folded e_def m_def, folded R_def]
  have lt: "R < pow2 1024" using assms u(1) by (auto split: if_splits)
  have r: "\<bar>r\<bar> = R \<and> (r = R \<or> r = - R)"
  proof -
    have "0 \<le> R" using u(2) pow2_pos [of e] by (simp add: R_def)
    moreover have "r = R \<or> r = - R \<or> (r = 0 \<and> m = 0)"
      using assms u(1) by (auto split: if_splits)
    moreover have "m = 0 \<Longrightarrow> R = 0" by (simp add: R_def)
    ultimately show ?thesis by auto
  qed
  have m53: "(of_int m :: rat) \<le> pow2 53"
  proof -
    have "(of_int m :: rat) \<le> of_int (2 ^ 53)" using u(3) by (simp only: of_int_le_iff)
    then show ?thesis by (simp add: pow2_53)
  qed
  show ?thesis
  proof (cases "e < 0")
    case True
    then have "pow2 e \<le> pow2 (- 1)" by (intro pow2_mono) simp
    then have "R \<le> pow2 53 * pow2 (- 1)"
      unfolding R_def using m53 u(2) pow2_pos [of e]
      by (intro mult_mono) simp_all
    also have "\<dots> = pow2 52" by (simp add: pow2_add [symmetric])
    finally have "R \<le> pow2 52" .
    then show ?thesis using r pow2_gap(1) by auto
  next
    case False
    then have e0: "0 \<le> e" by simp
    have Ri: "R = of_int (m * 2 ^ nat e)" by (simp add: R_def pow2_of_nonneg [OF e0])
    have int: "\<exists>i. r = of_int i"
    proof -
      from r have "r = of_int (m * 2 ^ nat e) \<or> r = of_int (- (m * 2 ^ nat e))"
        by (simp add: Ri)
      then show ?thesis by blast
    qed
    have "R < pow2 1024 - pow2 970"
    proof (cases "e \<le> 970")
      case True
      then have "pow2 e \<le> pow2 970" by (intro pow2_mono)
      then have "R \<le> pow2 53 * pow2 970"
        unfolding R_def using m53 u(2) pow2_pos [of e]
        by (intro mult_mono) simp_all
      also have "\<dots> = pow2 1023" by (simp add: pow2_add [symmetric])
      finally show ?thesis using pow2_gap(2) by linarith
    next
      case False
      then have e971: "971 \<le> e" by simp
      show ?thesis
      proof (cases "m = 0")
        case True
        then have "R = 0" by (simp add: R_def)
        then show ?thesis using pow2_gap(1) pow2_pos [of 52] by simp
      next
        case False
        with u(2) have m1: "1 \<le> m" by simp
        then have "(of_int 1 :: rat) \<le> of_int m" by (simp only: of_int_le_iff)
        then have "1 * pow2 e \<le> R"
          unfolding R_def using pow2_pos [of e] by (intro mult_right_mono) simp_all
        with lt have "pow2 e < pow2 1024" by simp
        then have e1024: "e < 1024" by (rule pow2_less_cancel)
        define j where "j = 1024 - e"
        have j: "0 \<le> j" "pow2 1024 = pow2 j * pow2 e"
          using e1024 by (simp_all add: j_def pow2_add [symmetric])
        have "of_int m * pow2 e < pow2 j * pow2 e" using lt by (simp add: R_def j(2))
        then have "(of_int m :: rat) < pow2 j"
          using pow2_pos [of e] by (simp only: mult_less_cancel_right_pos)
        then have "(of_int m :: rat) < of_int (2 ^ nat j)" by (simp add: pow2_of_nonneg [OF j(1)])
        then have "m < 2 ^ nat j" by (simp only: of_int_less_iff)
        then have "m + 1 \<le> 2 ^ nat j" by simp
        then have "(of_int (m + 1) :: rat) \<le> of_int (2 ^ nat j)" by (simp only: of_int_le_iff)
        then have "(of_int m + 1 :: rat) \<le> pow2 j" by (simp add: pow2_of_nonneg [OF j(1)])
        then have "(of_int m + 1) * pow2 e \<le> pow2 j * pow2 e"
          using pow2_pos [of e] by (simp only: mult_le_cancel_right_pos)
        then have "R + pow2 e \<le> pow2 1024" by (simp add: R_def j(2) algebra_simps)
        moreover have "pow2 970 < pow2 e" using e971 by (intro pow2_strict_mono) simp
        ultimately show ?thesis by linarith
      qed
    qed
    then show ?thesis using r int by auto
  qed
qed


lemma py_round_Fin_total:
  assumes "\<bar>r\<bar> < pow2 1024 - pow2 970" and "\<bar>r\<bar> \<le> pow2 52 \<or> (\<exists>i. r = of_int i)"
  shows "\<exists>y. py_round (Fin r) 4 = Inr y"
proof -
  define k where "k = round_half_even (r * 10 ^ 4)"
  define x where "x = (of_int k :: rat) / 10 ^ 4"
  have pr: "py_round (Fin r) 4 =
      (if k = 0 then Inr (if r < 0 then NegZero else Fin 0)
       else (case round_to_double x of PosInf \<Rightarrow> Inl OverflowError
            | NegInf \<Rightarrow> Inl OverflowError | y \<Rightarrow> Inr y))"
    by (simp add: py_round_def k_def x_def Let_def)
  show ?thesis
  proof (cases "k = 0")
    case True
    then show ?thesis by (simp add: pr)
  next
    case False
    then have x0: "x \<noteq> 0" by (simp add: x_def)
    have "\<bar>x\<bar> < pow2 1024 - pow2 970"
      using assms(2)
    proof
      assume "\<exists>i. r = of_int i"
      then obtain i where i: "r = of_int i" ..
      have "r * 10 ^ 4 = of_int (i * 10 ^ 4)" by (simp add: i)
      then have "k = i * 10 ^ 4" unfolding k_def by (simp only: round_half_even_of_int)
      then have "x = r" by (simp add: x_def i)
      then show ?thesis using assms(1) by simp
    next
      assume le: "\<bar>r\<bar> \<le> pow2 52"
      have "of_int k \<le> r * 10 ^ 4 + 1 / 2" "r * 10 ^ 4 - 1 / 2 \<le> of_int k"
        using round_half_even_bounds [of "r * 10 ^ 4"] by (simp_all add: k_def)
      then have "x \<le> r + 1" "r - 1 \<le> x" by (simp_all add: x_def field_simps)
      then have "\<bar>x\<bar> \<le> \<bar>r\<bar> + 1" by linarith
      moreover have "(1 :: rat) \<le> pow2 52" using pow2_mono [of 0 52] by (simp add: pow2_def)
      moreover have "pow2 53 = 2 * pow2 52" using pow2_Suc [of 52] by simp
      moreover have "pow2 53 < pow2 1023" by (rule pow2_strict_mono) simp
      ultimately show ?thesis using le pow2_gap(2) by linarith
    qed
    from round_to_double_no_overflow [OF x0 this]
    have "\<exists>y. (case round_to_double x of PosInf \<Rightarrow> Inl OverflowError
            | NegInf \<Rightarrow> Inl OverflowError | y \<Rightarrow> Inr y) = Inr y"
      by (cases "round_to_double x") simp_all
    then show ?thesis using False by (simp add: pr)
  qed
qed

lemma py_round_total:
  assumes "float_div a b = Inr d"
  shows "\<exists>y. py_round d 4 = Inr y"
proof (cases d)
  case (Fin r)
  have z: "\<exists>y. py_round (Fin 0) 4 = Inr y"
    by (simp add: py_round_def round_half_even_def)
  have "r = 0 \<or> (\<exists>q. round_to_double q = Fin r)"
    using assms Fin by (auto simp: float_div_def split: if_splits)
  then show ?thesis
  proof
    assume "r = 0"
    then show ?thesis using z Fin by simp
  next
    assume "\<exists>q. round_to_double q = Fin r"
    then obtain q where "round_to_double q = Fin r" ..
    from round_to_double_Fin [OF this] show ?thesis
      using py_round_Fin_total [of r] Fin by simp
  qed
qed (simp_all add: py_round_def)

section \<open>Validation\<close>

text \<open>
  C3. \<^verbatim>\<open>validate_input_message\<close> raises (a \<^verbatim>\<open>ValueError\<close>, the code's invalid-input
  error) exactly when the schema check returns false, and returns the message it was
  given, unchanged, when the check returns true.
\<close>

theorem validate_input_message_iff:
  "(snd (validate_input_message vs msg) = Inl ValueError) = (\<not> vs msg) \<and>
   (\<not> vs msg \<longrightarrow>
      validate_input_message vs msg = ([(DEBUG, []), (ERROR, [LDict msg])], Inl ValueError)) \<and>
   (vs msg \<longrightarrow> validate_input_message vs msg = ([(DEBUG, [])], Inr msg))"
  by (simp add: validate_input_message_def)

theorem validate_input_message_iff_witness:
  "snd (validate_input_message (\<lambda>m. m ''symbol'' \<noteq> None) [''symbol'' \<mapsto> PyStr ''AAPL''])
     = Inr [''symbol'' \<mapsto> PyStr ''AAPL''] \<and>
   snd (validate_input_message (\<lambda>m. m ''symbol'' \<noteq> None) Map.empty) = Inl ValueError"
  using validate_input_message_iff [of "\<lambda>m. m ''symbol'' \<noteq> None" "[''symbol'' \<mapsto> PyStr ''AAPL'']"]
        validate_input_message_iff [of "\<lambda>m. m ''symbol'' \<noteq> None" Map.empty]
  by simp

section \<open>The signal computation\<close>

subsection \<open>How the function returns\<close>

lemma lit_0_03_value: "lit_0_03 = Fin (1080863910568919 / 36028797018963968)"
  unfolding lit_0_03_def by code_simp

lemma thresholds_exclusive:
  "\<not> (float_lt d (float_neg lit_0_03) \<and> float_gt d lit_0_03)"
  by (cases d) (simp_all add: lit_0_03_value float_lt_def float_gt_def)

lemma float_div_Inr_iff: "(\<exists>d. float_div a b = Inr d) = (\<not> is_zero b)"
  by (simp add: float_div_def)

lemma float_div_zero: "is_zero b \<Longrightarrow> float_div a b = Inl ZeroDivisionError"
  by (simp add: float_div_def)

lemma compute_Inr:
  assumes "py_float (dict_get msg ''price'' (PyFloat (Fin 100))) = Inr p"
    and "py_float (dict_get msg ''moving_average'' (PyFloat (Fin 100))) = Inr m"
    and "float_div (float_sub p m) m = Inr d"
    and "py_round d 4 = Inr r"
  shows "compute_meanreversion_signal msg =
     ([(INFO, [LVal (dict_get msg ''symbol'' (PyStr ''UNKNOWN''))]),
       (DEBUG, [LVal (dict_get msg ''symbol'' (PyStr ''UNKNOWN'')),
                LDict [''mean_reversion_deviation'' \<mapsto> PyFloat r,
                       ''mean_reversion_signal'' \<mapsto> PyStr
                          (if float_lt d (float_neg lit_0_03) then ''REVERT_UP''
                           else if float_gt d lit_0_03 then ''REVERT_DOWN''
                           else ''NEUTRAL'')]])],
      Inr (msg ++ [''mean_reversion_deviation'' \<mapsto> PyFloat r,
                   ''mean_reversion_signal'' \<mapsto> PyStr
                      (if float_lt d (float_neg lit_0_03) then ''REVERT_UP''
                       else if float_gt d lit_0_03 then ''REVERT_DOWN''
                       else ''NEUTRAL'')]))"
  using assms by (simp add: compute_meanreversion_signal_def Let_def)

lemma compute_Inr_elim:
  assumes "snd (compute_meanreversion_signal msg) = Inr out"
  obtains p m d r where
    "py_float (dict_get msg ''price'' (PyFloat (Fin 100))) = Inr p"
    "py_float (dict_get msg ''moving_average'' (PyFloat (Fin 100))) = Inr m"
    "float_div (float_sub p m) m = Inr d"
    "py_round d 4 = Inr r"
    "out = msg ++ [''mean_reversion_deviation'' \<mapsto> PyFloat r,
                   ''mean_reversion_signal'' \<mapsto> PyStr
                      (if float_lt d (float_neg lit_0_03) then ''REVERT_UP''
                       else if float_gt d lit_0_03 then ''REVERT_DOWN''
                       else ''NEUTRAL'')]"
  using assms
  by (auto simp: compute_meanreversion_signal_def Let_def split: sum.splits)

lemma compute_returns:
  assumes "py_float (dict_get msg ''price'' (PyFloat (Fin 100))) = Inr p"
    and "py_float (dict_get msg ''moving_average'' (PyFloat (Fin 100))) = Inr m"
    and "\<not> is_zero m"
  obtains d r where "float_div (float_sub p m) m = Inr d" "py_round d 4 = Inr r"
proof -
  from assms(3) obtain d where d: "float_div (float_sub p m) m = Inr d"
    using float_div_Inr_iff [of "float_sub p m" m] by blast
  from py_round_total [OF d] obtain r where "py_round d 4 = Inr r" ..
  with d that show ?thesis by blast
qed

lemma round_half_even_nearest:
  "\<bar>q - of_int (round_half_even q)\<bar> \<le> 1 / 2 \<and>
   (\<bar>q - of_int (round_half_even q)\<bar> = 1 / 2 \<longrightarrow> even (round_half_even q))"
proof -
  define f where "f = \<lfloor>q\<rfloor>"
  have b: "of_int f \<le> q" "q < of_int f + 1" unfolding f_def by linarith+
  consider "q - of_int f < 1 / 2" | "1 / 2 < q - of_int f" | "q - of_int f = 1 / 2"
    by linarith
  then show ?thesis
  proof cases
    case 1
    then have "round_half_even q = f" by (simp add: round_half_even_def f_def)
    with 1 b show ?thesis by simp
  next
    case 2
    then have "round_half_even q = f + 1" by (simp add: round_half_even_def f_def)
    with 2 b show ?thesis by simp
  next
    case 3
    then have "round_half_even q = (if even f then f else f + 1)"
      by (simp add: round_half_even_def f_def Let_def)
    with 3 b show ?thesis by auto
  qed
qed

lemma py_round_Fin_Inr:
  assumes "py_round (Fin q) 4 = Inr r"
  shows "r = (if round_half_even (q * 10 ^ 4) = 0 then (if q < 0 then NegZero else Fin 0)
              else round_to_double (of_int (round_half_even (q * 10 ^ 4)) / 10 ^ 4))"
  using assms
  by (auto simp: py_round_def Let_def split: if_splits pyfloat.splits)

lemma py_round_not_Fin: "\<forall>q. d \<noteq> Fin q \<Longrightarrow> py_round d n = Inr d"
  by (cases d) (simp_all add: py_round_def)

subsection \<open>Classification and rounding\<close>

text \<open>
  C1. When both coercions succeed and the moving average is not a zero, the function
  returns, and \<open>mean_reversion_signal\<close> is \<^verbatim>\<open>REVERT_UP\<close> exactly when the deviation
  \<open>d = (price - moving_average) / moving_average\<close> is below \<open>-0.03\<close>, \<^verbatim>\<open>REVERT_DOWN\<close>
  exactly when it is above \<open>0.03\<close>, and \<^verbatim>\<open>NEUTRAL\<close> exactly when it is neither. The
  first two conditions never hold together, so the three cases are exclusive and
  exhaustive; a deviation equal to \<open>0.03\<close> or to \<open>-0.03\<close> gives \<^verbatim>\<open>NEUTRAL\<close>.
\<close>

theorem signal_classification:
  assumes "py_float (dict_get msg ''price'' (PyFloat (Fin 100))) = Inr p"
    and "py_float (dict_get msg ''moving_average'' (PyFloat (Fin 100))) = Inr m"
    and "\<not> is_zero m"
  shows "\<exists>d out. float_div (float_sub p m) m = Inr d \<and>
           snd (compute_meanreversion_signal msg) = Inr out \<and>
           (out ''mean_reversion_signal'' = Some (PyStr ''REVERT_UP''))
              = float_lt d (float_neg lit_0_03) \<and>
           (out ''mean_reversion_signal'' = Some (PyStr ''REVERT_DOWN''))
              = float_gt d lit_0_03 \<and>
           (out ''mean_reversion_signal'' = Some (PyStr ''NEUTRAL''))
              = (\<not> float_lt d (float_neg lit_0_03) \<and> \<not> float_gt d lit_0_03) \<and>
           \<not> (float_lt d (float_neg lit_0_03) \<and> float_gt d lit_0_03) \<and>
           (d = lit_0_03 \<or> d = float_neg lit_0_03 \<longrightarrow>
              out ''mean_reversion_signal'' = Some (PyStr ''NEUTRAL''))"
proof -
  from compute_returns [OF assms] obtain d r
    where d: "float_div (float_sub p m) m = Inr d" and r: "py_round d 4 = Inr r" .
  note c = compute_Inr [OF assms(1,2) d r]
  have ex: "\<not> (float_lt d (float_neg lit_0_03) \<and> float_gt d lit_0_03)"
    by (rule thresholds_exclusive)
  have b: "d = lit_0_03 \<or> d = float_neg lit_0_03 \<Longrightarrow>
      \<not> float_lt d (float_neg lit_0_03) \<and> \<not> float_gt d lit_0_03"
    by (auto simp: lit_0_03_value float_lt_def float_gt_def)
  show ?thesis
    apply (rule exI [of _ d])
    apply (rule exI)
    apply (rule conjI [OF d])
    apply (rule conjI)
     apply (simp add: c)
    using ex b by auto
qed

theorem signal_classification_witness:
  "\<exists>d out. float_div (float_sub (Fin 103) (Fin 100)) (Fin 100) = Inr d \<and>
     snd (compute_meanreversion_signal
            [''price'' \<mapsto> PyFloat (Fin 103), ''moving_average'' \<mapsto> PyFloat (Fin 100)]) = Inr out \<and>
     (out ''mean_reversion_signal'' = Some (PyStr ''REVERT_UP''))
        = float_lt d (float_neg lit_0_03) \<and>
     (out ''mean_reversion_signal'' = Some (PyStr ''REVERT_DOWN''))
        = float_gt d lit_0_03 \<and>
     (out ''mean_reversion_signal'' = Some (PyStr ''NEUTRAL''))
        = (\<not> float_lt d (float_neg lit_0_03) \<and> \<not> float_gt d lit_0_03) \<and>
     \<not> (float_lt d (float_neg lit_0_03) \<and> float_gt d lit_0_03) \<and>
     (d = lit_0_03 \<or> d = float_neg lit_0_03 \<longrightarrow>
        out ''mean_reversion_signal'' = Some (PyStr ''NEUTRAL''))"
proof -
  let ?msg = "[''price'' \<mapsto> PyFloat (Fin 103), ''moving_average'' \<mapsto> PyFloat (Fin 100)]"
  have h1: "py_float (dict_get ?msg ''price'' (PyFloat (Fin 100))) = Inr (Fin 103)"
    by (simp add: dict_get_def)
  have h2: "py_float (dict_get ?msg ''moving_average'' (PyFloat (Fin 100))) = Inr (Fin 100)"
    by (simp add: dict_get_def)
  have h3: "\<not> is_zero (Fin 100)" by simp
  show ?thesis by (rule signal_classification [OF h1 h2 h3])
qed

text \<open>
  C2. Under the same conditions the field \<open>mean_reversion_deviation\<close> holds
  \<^verbatim>\<open>round(d, 4)\<close> for the deviation \<open>d\<close>: for a finite \<open>d\<close> of exact value \<open>q\<close>
  there is an integer \<open>k\<close> with \<open>k / 10^4\<close> nearest to \<open>q\<close>, the even \<open>k\<close> on a
  tie, and the field is the float nearest to \<open>k / 10^4\<close> (a zero keeps the sign of
  \<open>q\<close>); an infinite or NaN deviation is stored as it is.
\<close>

theorem deviation_rounded_half_even:
  assumes "py_float (dict_get msg ''price'' (PyFloat (Fin 100))) = Inr p"
    and "py_float (dict_get msg ''moving_average'' (PyFloat (Fin 100))) = Inr m"
    and "\<not> is_zero m"
  shows "\<exists>d r out. float_div (float_sub p m) m = Inr d \<and>
           snd (compute_meanreversion_signal msg) = Inr out \<and>
           out ''mean_reversion_deviation'' = Some (PyFloat r) \<and>
           py_round d 4 = Inr r \<and>
           (\<forall>q. d = Fin q \<longrightarrow>
              (\<exists>k. \<bar>q * 10 ^ 4 - of_int k\<bar> \<le> 1 / 2 \<and>
                    (\<bar>q * 10 ^ 4 - of_int k\<bar> = 1 / 2 \<longrightarrow> even k) \<and>
                    r = (if k = 0 then (if q < 0 then NegZero else Fin 0)
                         else round_to_double (of_int k / 10 ^ 4)))) \<and>
           ((\<forall>q. d \<noteq> Fin q) \<longrightarrow> r = d)"
proof -
  from compute_returns [OF assms] obtain d r
    where d: "float_div (float_sub p m) m = Inr d" and r: "py_round d 4 = Inr r" .
  note c = compute_Inr [OF assms(1,2) d r]
  have fin: "\<exists>k. \<bar>q * 10 ^ 4 - of_int k\<bar> \<le> 1 / 2 \<and>
                    (\<bar>q * 10 ^ 4 - of_int k\<bar> = 1 / 2 \<longrightarrow> even k) \<and>
                    r = (if k = 0 then (if q < 0 then NegZero else Fin 0)
                         else round_to_double (of_int k / 10 ^ 4))" if "d = Fin q" for q
  proof -
    from r that have "py_round (Fin q) 4 = Inr r" by simp
    from py_round_Fin_Inr [OF this] round_half_even_nearest [of "q * 10 ^ 4"]
    show ?thesis by blast
  qed
  have nf: "r = d" if "\<forall>q. d \<noteq> Fin q"
    using py_round_not_Fin [OF that, of 4] r by simp
  let ?out = "msg ++ [''mean_reversion_deviation'' \<mapsto> PyFloat r,
                   ''mean_reversion_signal'' \<mapsto> PyStr
                      (if float_lt d (float_neg lit_0_03) then ''REVERT_UP''
                       else if float_gt d lit_0_03 then ''REVERT_DOWN''
                       else ''NEUTRAL'')]"
  have o: "?out ''mean_reversion_deviation'' = Some (PyFloat r)" by simp
  have s: "snd (compute_meanreversion_signal msg) = Inr ?out" by (simp only: c snd_conv)
  have A: "\<forall>q. d = Fin q \<longrightarrow>
              (\<exists>k. \<bar>q * 10 ^ 4 - of_int k\<bar> \<le> 1 / 2 \<and>
                    (\<bar>q * 10 ^ 4 - of_int k\<bar> = 1 / 2 \<longrightarrow> even k) \<and>
                    r = (if k = 0 then (if q < 0 then NegZero else Fin 0)
                         else round_to_double (of_int k / 10 ^ 4)))"
    using fin by (intro allI impI)
  have B: "(\<forall>q. d \<noteq> Fin q) \<longrightarrow> r = d" using nf by (intro impI)
  show ?thesis
    apply (rule exI [of _ d])
    apply (rule exI [of _ r])
    apply (rule exI [of _ ?out])
    apply (intro conjI)
         apply (rule d)
        apply (rule s)
       apply (rule o)
      apply (rule r)
     apply (rule A)
    apply (rule B)
    done
qed

theorem deviation_rounded_half_even_witness:
  "\<exists>d r out. float_div (float_sub (Fin 103) (Fin 100)) (Fin 100) = Inr d \<and>
     snd (compute_meanreversion_signal
            [''price'' \<mapsto> PyFloat (Fin 103), ''moving_average'' \<mapsto> PyFloat (Fin 100)]) = Inr out \<and>
     out ''mean_reversion_deviation'' = Some (PyFloat r) \<and>
     py_round d 4 = Inr r \<and>
     (\<forall>q. d = Fin q \<longrightarrow>
        (\<exists>k. \<bar>q * 10 ^ 4 - of_int k\<bar> \<le> 1 / 2 \<and>
              (\<bar>q * 10 ^ 4 - of_int k\<bar> = 1 / 2 \<longrightarrow> even k) \<and>
              r = (if k = 0 then (if q < 0 then NegZero else Fin 0)
                   else round_to_double (of_int k / 10 ^ 4)))) \<and>
     ((\<forall>q. d \<noteq> Fin q) \<longrightarrow> r = d)"
proof -
  let ?msg = "[''price'' \<mapsto> PyFloat (Fin 103), ''moving_average'' \<mapsto> PyFloat (Fin 100)]"
  have h1: "py_float (dict_get ?msg ''price'' (PyFloat (Fin 100))) = Inr (Fin 103)"
    by (simp add: dict_get_def)
  have h2: "py_float (dict_get ?msg ''moving_average'' (PyFloat (Fin 100))) = Inr (Fin 100)"
    by (simp add: dict_get_def)
  have h3: "\<not> is_zero (Fin 100)" by simp
  show ?thesis by (rule deviation_rounded_half_even [OF h1 h2 h3])
qed

subsection \<open>Division by zero\<close>

text \<open>
  C4. When \<open>moving_average\<close> coerces to \<open>0.0\<close> or \<open>-0.0\<close> the function returns no
  enriched message: nothing guards the division, and when the price coerces too the
  call ends in \<^verbatim>\<open>ZeroDivisionError\<close>, after the info log entry.
\<close>

theorem zero_moving_average_raises:
  assumes "py_float (dict_get msg ''moving_average'' (PyFloat (Fin 100))) = Inr m"
    and "is_zero m"
  shows "(\<forall>out. snd (compute_meanreversion_signal msg) \<noteq> Inr out) \<and>
         (\<forall>p. py_float (dict_get msg ''price'' (PyFloat (Fin 100))) = Inr p \<longrightarrow>
            compute_meanreversion_signal msg =
              ([(INFO, [LVal (dict_get msg ''symbol'' (PyStr ''UNKNOWN''))])],
               Inl ZeroDivisionError))"
  using assms
  by (auto simp: compute_meanreversion_signal_def Let_def float_div_zero split: sum.splits)

theorem zero_moving_average_raises_witness:
  "compute_meanreversion_signal
     [''symbol'' \<mapsto> PyStr ''AAPL'', ''price'' \<mapsto> PyFloat (Fin 50),
      ''moving_average'' \<mapsto> PyFloat (Fin 0)]
   = ([(INFO, [LVal (PyStr ''AAPL'')])], Inl ZeroDivisionError)"
proof -
  let ?msg = "[''symbol'' \<mapsto> PyStr ''AAPL'', ''price'' \<mapsto> PyFloat (Fin 50),
      ''moving_average'' \<mapsto> PyFloat (Fin 0)]"
  have h1: "py_float (dict_get ?msg ''moving_average'' (PyFloat (Fin 100))) = Inr (Fin 0)"
    by (simp add: dict_get_def)
  have h2: "is_zero (Fin 0)" by simp
  have h3: "py_float (dict_get ?msg ''price'' (PyFloat (Fin 100))) = Inr (Fin 50)"
    by (simp add: dict_get_def)
  have h4: "dict_get ?msg ''symbol'' (PyStr ''UNKNOWN'') = PyStr ''AAPL''"
    by (simp add: dict_get_def)
  from zero_moving_average_raises [OF h1 h2] h3 h4 show ?thesis by simp
qed

subsection \<open>Frame and determinism\<close>



text \<open>
  C8. The function is deterministic, and the two computed fields (or the exception
  raised) are the same for two messages that agree on \<open>price\<close> and
  \<open>moving_average\<close>.
\<close>

theorem deterministic_and_depends_on_two_fields:
  "(m1 = m2 \<longrightarrow> compute_meanreversion_signal m1 = compute_meanreversion_signal m2) \<and>
   (m1 ''price'' = m2 ''price'' \<and> m1 ''moving_average'' = m2 ''moving_average'' \<longrightarrow>
      map_sum id (\<lambda>out. (out ''mean_reversion_deviation'', out ''mean_reversion_signal''))
        (snd (compute_meanreversion_signal m1))
    = map_sum id (\<lambda>out. (out ''mean_reversion_deviation'', out ''mean_reversion_signal''))
        (snd (compute_meanreversion_signal m2)))"
proof (intro conjI impI)
  assume "m1 = m2"
  then show "compute_meanreversion_signal m1 = compute_meanreversion_signal m2" by simp
next
  assume a: "m1 ''price'' = m2 ''price'' \<and> m1 ''moving_average'' = m2 ''moving_average''"
  then have g: "dict_get m1 ''price'' = dict_get m2 ''price''"
    "dict_get m1 ''moving_average'' = dict_get m2 ''moving_average''"
    by (simp_all add: dict_get_def fun_eq_iff)
  show "map_sum id (\<lambda>out. (out ''mean_reversion_deviation'', out ''mean_reversion_signal''))
        (snd (compute_meanreversion_signal m1))
    = map_sum id (\<lambda>out. (out ''mean_reversion_deviation'', out ''mean_reversion_signal''))
        (snd (compute_meanreversion_signal m2))"
    by (simp add: compute_meanreversion_signal_def Let_def g split: sum.splits)
qed

theorem deterministic_and_depends_on_two_fields_witness:
  "map_sum id (\<lambda>out. (out ''mean_reversion_deviation'', out ''mean_reversion_signal''))
     (snd (compute_meanreversion_signal
        [''symbol'' \<mapsto> PyStr ''AAPL'', ''price'' \<mapsto> PyInt 103, ''moving_average'' \<mapsto> PyInt 100]))
   = map_sum id (\<lambda>out. (out ''mean_reversion_deviation'', out ''mean_reversion_signal''))
     (snd (compute_meanreversion_signal
        [''symbol'' \<mapsto> PyStr ''MSFT'', ''volume'' \<mapsto> PyInt 7, ''price'' \<mapsto> PyInt 103,
         ''moving_average'' \<mapsto> PyInt 100]))"
proof -
  let ?m1 = "[''symbol'' \<mapsto> PyStr ''AAPL'', ''price'' \<mapsto> PyInt 103,
              ''moving_average'' \<mapsto> PyInt 100]"
  let ?m2 = "[''symbol'' \<mapsto> PyStr ''MSFT'', ''volume'' \<mapsto> PyInt 7, ''price'' \<mapsto> PyInt 103,
         ''moving_average'' \<mapsto> PyInt 100]"
  have a: "?m1 ''price'' = ?m2 ''price'' \<and> ?m1 ''moving_average'' = ?m2 ''moving_average''"
    by simp
  show ?thesis
    by (rule deterministic_and_depends_on_two_fields [of ?m1 ?m2, THEN conjunct2, THEN mp, OF a])
qed

text \<open>
  C10. For a message without the key \<open>symbol\<close>, an output never has that key; the
  default \<^verbatim>\<open>UNKNOWN\<close> only appears as the first argument of the log entries.
\<close>

theorem symbol_default_not_written:
  assumes "msg ''symbol'' = None"
  shows "(\<forall>out. snd (compute_meanreversion_signal msg) = Inr out \<longrightarrow> out ''symbol'' = None) \<and>
         (\<forall>e \<in> set (fst (compute_meanreversion_signal msg)).
             hd (snd e) = LVal (PyStr ''UNKNOWN''))"
proof (intro conjI allI impI ballI)
  fix out
  assume "snd (compute_meanreversion_signal msg) = Inr out"
  then obtain r s where
    "out = msg ++ [''mean_reversion_deviation'' \<mapsto> PyFloat r, ''mean_reversion_signal'' \<mapsto> PyStr s]"
    by (rule compute_Inr_elim)
  then show "out ''symbol'' = None" using assms by (simp add: map_add_def)
next
  fix e
  assume "e \<in> set (fst (compute_meanreversion_signal msg))"
  then show "hd (snd e) = LVal (PyStr ''UNKNOWN'')"
    using assms
    by (auto simp: compute_meanreversion_signal_def Let_def dict_get_def split: sum.splits)
qed

theorem symbol_default_not_written_witness:
  "\<exists>out. compute_meanreversion_signal
       [''price'' \<mapsto> PyFloat (Fin 103), ''moving_average'' \<mapsto> PyFloat (Fin 100)]
     = ([(INFO, [LVal (PyStr ''UNKNOWN'')]),
         (DEBUG, [LVal (PyStr ''UNKNOWN''),
                  LDict [''mean_reversion_deviation'' \<mapsto> the (out ''mean_reversion_deviation''),
                         ''mean_reversion_signal'' \<mapsto> the (out ''mean_reversion_signal'')]])],
        Inr out) \<and>
     out ''symbol'' = None"
proof -
  let ?msg = "[''price'' \<mapsto> PyFloat (Fin 103), ''moving_average'' \<mapsto> PyFloat (Fin 100)]"
  have h1: "py_float (dict_get ?msg ''price'' (PyFloat (Fin 100))) = Inr (Fin 103)"
    by (simp add: dict_get_def)
  have h2: "py_float (dict_get ?msg ''moving_average'' (PyFloat (Fin 100))) = Inr (Fin 100)"
    by (simp add: dict_get_def)
  have h3: "\<not> is_zero (Fin 100)" by simp
  have h4: "?msg ''symbol'' = None" by simp
  from compute_returns [OF h1 h2 h3] obtain d r
    where d: "float_div (float_sub (Fin 103) (Fin 100)) (Fin 100) = Inr d"
      and r: "py_round d 4 = Inr r" .
  note c = compute_Inr [OF h1 h2 d r]
  have s: "dict_get ?msg ''symbol'' (PyStr ''UNKNOWN'') = PyStr ''UNKNOWN''"
    by (simp add: dict_get_def)
  from symbol_default_not_written [of ?msg, OF h4] c s show ?thesis
    by (intro exI [of _ "?msg ++ [''mean_reversion_deviation'' \<mapsto> PyFloat r,
                   ''mean_reversion_signal'' \<mapsto> PyStr
                      (if float_lt d (float_neg lit_0_03) then ''REVERT_UP''
                       else if float_gt d lit_0_03 then ''REVERT_DOWN''
                       else ''NEUTRAL'')]"]) simp
qed

end
